theory Spec2Isabelle
  imports Main "HOL-Library.Word"
begin

unbundle bit_operations_syntax

text \<open>
  A shallow embedding of rtf.js, the RTF reader of rtf2html: the tokenizer \<open>GetRtfTk\<close>
  with the accessors of its packed 32-bit tokens, the block skipper \<open>RtfSkipB\<close>, the
  decoder \<open>RtfPkgOb\<close> of OLE Package objects, and the parser with its registry of
  destination handlers (\<open>HandleDest\<close>, \<open>Handlers\<close>, \<open>Document\<close>).  The definitions
  come first, each following its source function; the properties C1 to C10 are proved
  or refuted after them.
\<close>

section \<open>JavaScript primitives used by rtf.js\<close>

text \<open>
  The RTF source is a string of bytes; \<open>charCodeAt\<close> yields the code of the byte at an
  index, and \<open>NaN\<close> (here \<open>None\<close>) when the index is outside the string.  Every comparison
  with \<open>NaN\<close> is false, except \<open>!=\<close> and \<open>!==\<close>, which are true.
\<close>

type_synonym int32 = "32 word"

definition charCodeAt :: "string \<Rightarrow> nat \<Rightarrow> nat option" where
  "charCodeAt s i = (if i < length s then Some (of_char (s ! i)) else None)"

definition js_eq :: "nat \<Rightarrow> nat option \<Rightarrow> bool" where
  "js_eq k c = (c = Some k)"

definition js_between :: "nat \<Rightarrow> nat \<Rightarrow> nat option \<Rightarrow> bool" where
  "js_between lo hi c = (case c of None \<Rightarrow> False | Some x \<Rightarrow> lo \<le> x \<and> x \<le> hi)"

definition js_lt :: "nat option \<Rightarrow> nat \<Rightarrow> bool" where
  "js_lt c k = (case c of None \<Rightarrow> False | Some x \<Rightarrow> x < k)"

definition js_gt :: "nat option \<Rightarrow> nat \<Rightarrow> bool" where
  "js_gt c k = (case c of None \<Rightarrow> False | Some x \<Rightarrow> k < x)"

text \<open>\<open>ToInt32\<close>, applied by \<open><<\<close> and \<open>|\<close> to their operands: \<open>NaN\<close> becomes 0.\<close>

definition ToInt32 :: "int option \<Rightarrow> int32" where
  "ToInt32 v = (case v of None \<Rightarrow> 0 | Some x \<Rightarrow> word_of_int x)"

text \<open>
  \<open>parseInt\<close> on the only strings the tokenizer passes to it: a non-empty run of \<open>-\<close> and
  decimal digits.  An optional leading \<open>-\<close>, then the longest prefix of digits; \<open>NaN\<close>
  when that prefix is empty.  (The value is exact here; JavaScript rounds beyond
  \<open>2^53\<close>, which touches only the value bits of a token, never its kind or length.)
\<close>

definition is_digit :: "char \<Rightarrow> bool" where
  "is_digit ch = (48 \<le> (of_char ch :: nat) \<and> (of_char ch :: nat) \<le> 57)"

definition parseInt :: "string \<Rightarrow> int option" where
  "parseInt str =
     (let neg = (str \<noteq> [] \<and> of_char (hd str) = (45::nat));
          ds = takeWhile is_digit (if neg then tl str else str)
      in if ds = [] then None
         else Some ((if neg then - 1 else 1) *
                    foldl (\<lambda>a d. 10 * a + (int (of_char d) - 48)) 0 ds))"

section \<open>Token accessors\<close>

text \<open>The token kinds of \<open>RtfConst()\<close>.\<close>

definition INVALID :: nat where "INVALID = 0"
definition DATA :: nat where "DATA = 1"
definition PUSH :: nat where "PUSH = 2"
definition POP :: nat where "POP = 3"
definition IGNORABLE :: nat where "IGNORABLE = 4"
definition SYMBOL :: nat where "SYMBOL = 5"
definition CONTROL :: nat where "CONTROL = 6"
definition CHARACTER :: nat where "CHARACTER = 7"

definition RtfTkTyp :: "int32 \<Rightarrow> nat" where
  "RtfTkTyp t = unat (signed_drop_bit 8 t AND 0x7)"

definition RtfTkLen :: "int32 \<Rightarrow> nat" where
  "RtfTkLen t = unat (t AND 0xFF)"

definition RtfTkVal :: "int32 \<Rightarrow> int option" where
  "RtfTkVal t =
     (if signed_drop_bit 31 t = 0 then None
      else Some (sint (signed_drop_bit 15 t AND 0xFFFF) - 32768))"

definition RtfTkCtl :: "int32 \<Rightarrow> string \<Rightarrow> nat \<Rightarrow> string option" where
  "RtfTkCtl t s i =
     (if t AND 0x700 \<noteq> 1536 then None
      else Some (take (1 + unat (signed_drop_bit 11 t AND 0xF)) (drop (1 + i) s)))"

section \<open>The tokenizer\<close>

text \<open>The loop over the lower-case letters of a control word; \<open>i\<close> is the index after \<open>++i\<close>.\<close>

function scan_letters :: "string \<Rightarrow> nat \<Rightarrow> nat \<Rightarrow> nat \<times> nat" where
  "scan_letters s i len =
     (if js_between 97 122 (charCodeAt s i) then scan_letters s (i + 1) (len + 1)
      else (i, len))"
  by pat_completeness auto
termination
  by (relation "measure (\<lambda>(s, i, len). length s - i)")
     (auto simp: js_between_def charCodeAt_def split: if_splits option.splits)

text \<open>The loop over the numeric parameter of a control word.\<close>

function scan_value :: "string \<Rightarrow> nat \<Rightarrow> nat \<Rightarrow> nat \<times> nat" where
  "scan_value s i len =
     (if i < length s then
        (let c = charCodeAt s i; len1 = len + 1 in
         if \<not> js_eq 45 c \<and> (js_lt c 48 \<or> js_gt c 57)
         then (i, if js_eq 32 c then len1 + 1 else len1)
         else scan_value s (i + 1) len1)
      else (i, len))"
  by pat_completeness auto
termination
  by (relation "measure (\<lambda>(s, i, len). length s - i)") auto

text \<open>The loop over a run of CR and LF.\<close>

function scan_crlf :: "string \<Rightarrow> nat \<Rightarrow> nat \<Rightarrow> nat" where
  "scan_crlf s i len =
     (if i < length s then
        (let c = charCodeAt s i in
         if \<not> js_eq 10 c \<and> \<not> js_eq 13 c then len
         else if len + 1 = 255 then len + 1
         else scan_crlf s (i + 1) (len + 1))
      else len)"
  by pat_completeness auto
termination
  by (relation "measure (\<lambda>(s, i, len). length s - i)") auto

text \<open>The loop over plain data.\<close>

function scan_data :: "string \<Rightarrow> nat \<Rightarrow> nat \<Rightarrow> nat" where
  "scan_data s i len =
     (if i < length s then
        (let c = charCodeAt s i in
         if js_eq 92 c \<or> js_eq 123 c \<or> js_eq 125 c \<or> js_eq 13 c \<or> js_eq 10 c then len
         else if len + 1 = 255 then len + 1
         else scan_data s (i + 1) (len + 1))
      else len)"
  by pat_completeness auto
termination
  by (relation "measure (\<lambda>(s, i, len). length s - i)") auto

declare scan_letters.simps [simp del] scan_value.simps [simp del]
  scan_crlf.simps [simp del] scan_data.simps [simp del]

text \<open>
  One hexadecimal digit after the backslash and the apostrophe: its value, or \<open>None\<close>
  where the source returns 4.
\<close>

definition hex_digit :: "nat option \<Rightarrow> nat option" where
  "hex_digit d =
     (if js_between 0x30 0x39 d then Some (the d - 0x30)
      else if js_between 0x41 0x46 d then Some (the d - 0x37)
      else if js_between 0x61 0x66 d then Some (the d - 0x57)
      else None)"

definition GetRtfTk :: "string \<Rightarrow> nat \<Rightarrow> int32" where
  "GetRtfTk s i0 =
     (let c = charCodeAt s i0 in
      if js_eq 123 c then 513
      else if js_eq 125 c then 769
      else if js_eq 92 c then
        (let (i, len) = scan_letters s (i0 + 1) 1; c = charCodeAt s i in
         if len = 1 then
           (if js_eq 42 c then 1026
            else if js_eq 39 c then
              (if i + 2 > length s then word_of_nat ((length s - i) + 2)
               else
                 (case hex_digit (charCodeAt s (i + 1)) of
                    None \<Rightarrow> 4
                  | Some d1 \<Rightarrow>
                     (case hex_digit (charCodeAt s (i + 2)) of
                        None \<Rightarrow> 4
                      | Some d2 \<Rightarrow>
                          push_bit 31 1 OR push_bit 19 (word_of_nat d1)
                            OR push_bit 15 (word_of_nat d2) OR 1796)))
            else if \<not> js_eq 92 c \<and> \<not> js_eq 45 c \<and> \<not> js_eq 58 c \<and> \<not> js_eq 95 c
                    \<and> js_lt c 123 \<and> js_gt c 126
            then 2
            else push_bit 31 1
                   OR push_bit 15 (ToInt32 (map_option (\<lambda>x. int x + 32768) c)) OR 1282)
         else if js_eq 45 c \<or> js_between 48 57 c then
           (let skp = len; vi = i;
                (i, len) = scan_value s (i + 1) len;
                val = map_option (\<lambda>v. v + 32768) (parseInt (take (i - vi) (drop vi s)))
            in push_bit 31 1 OR push_bit 15 (ToInt32 val)
                 OR push_bit 11 (word_of_int (int skp - 2)) OR 1536 OR word_of_nat len)
         else if js_eq 32 c then
           (let len = len + 1 in
            push_bit 11 (word_of_int (int len - 3)) OR 1536 OR word_of_nat len)
         else push_bit 11 (word_of_int (int len - 2)) OR 1536 OR word_of_nat len)
      else if js_eq 10 c \<or> js_eq 13 c then
        (let len = scan_crlf s (i0 + 1) 1 in push_bit 31 1 OR 1074169088 OR word_of_nat len)
      else
        (let len = scan_data s (i0 + 1) 1 in 256 OR word_of_nat len))"


text \<open>A CR or LF byte, as the loop of the newline branch tests it.\<close>

definition is_crlf :: "char \<Rightarrow> bool" where
  "is_crlf ch = (of_char ch = (10::nat) \<or> of_char ch = (13::nat))"

section \<open>The block skipper\<close>

text \<open>
  \<open>RtfSkipB(s, i, bc)\<close>: a \<open>for\<close> loop over the tokens from \<open>i\<close>.  A token of length 0
  leaves the cursor where it is, so the loop need not end: not returning is \<open>None\<close>.
  The source computes the length and kind of a token in line, as \<open>tk & 0xFF\<close> and
  \<open>(tk >> 8) & 0x7\<close>, which is what \<open>RtfTkLen\<close> and \<open>RtfTkTyp\<close> compute.
\<close>

partial_function (option) RtfSkipB_loop :: "string \<Rightarrow> nat \<Rightarrow> int \<Rightarrow> nat option" where
  "RtfSkipB_loop s ps bc =
     (if ps < length s then
        (let tk = GetRtfTk s ps; tl = RtfTkLen tk; ty = RtfTkTyp tk in
         if ty = 2 then RtfSkipB_loop s (ps + tl) (bc + 1)
         else if ty = 3 then
           (if bc = 0 then Some (ps + tl) else RtfSkipB_loop s (ps + tl) (bc - 1))
         else RtfSkipB_loop s (ps + tl) bc)
      else Some ps)"

definition RtfSkipB :: "string \<Rightarrow> nat \<Rightarrow> int option \<Rightarrow> nat option" where
  "RtfSkipB s i bc = RtfSkipB_loop s i (case bc of None \<Rightarrow> 0 | Some b \<Rightarrow> b)"

text \<open>
  The walk over the tokens that the skipper is described by: a state is the offset of the
  next token and the current depth; a \<open>GroupOpen\<close> token increments the depth, a
  \<open>GroupClose\<close> token decrements it, and every token moves the offset by its length.
\<close>

definition walk_step :: "string \<Rightarrow> nat \<times> int \<Rightarrow> nat \<times> int" where
  "walk_step s pd =
     (let tk = GetRtfTk s (fst pd) in
      (fst pd + RtfTkLen tk,
       if RtfTkTyp tk = PUSH then snd pd + 1
       else if RtfTkTyp tk = POP then snd pd - 1
       else snd pd))"

fun skip_walk :: "string \<Rightarrow> nat \<times> int \<Rightarrow> nat \<Rightarrow> nat \<times> int" where
  "skip_walk s pd 0 = pd"
| "skip_walk s pd (Suc k) = skip_walk s (walk_step s pd) k"

text \<open>The token at the offset is a \<open>GroupClose\<close> met at depth 0: the matching close brace.\<close>

definition closes_at :: "string \<Rightarrow> nat \<times> int \<Rightarrow> bool" where
  "closes_at s pd =
     (fst pd < length s \<and> RtfTkTyp (GetRtfTk s (fst pd)) = POP \<and> snd pd = 0)"

section \<open>The decoder of OLE Package objects\<close>

text \<open>
  \<open>RtfPkgOb(txt, beg, end)\<close> reads hexadecimal text through the cursor \<open>i\<close> that its
  private functions share.  A reader is a function from the cursor to an error or to a
  result with the new cursor.  The private functions \<open>hx_\<close>, \<open>be4_\<close>, \<open>le4_\<close>,
  \<open>le2_\<close>, \<open>bstr_\<close> and \<open>str_\<close> are \<open>hx\<close>, \<open>be4\<close>, \<open>le4\<close>, \<open>le2\<close>, \<open>bstr\<close> and
  \<open>str\<close> here, \<open>end\<close> is \<open>en\<close>.  A decoded string is a list of character codes: one
  decoded character is \<open>(hx_() << 4) | hx_()\<close>, which exceeds 255 for the letters that
  are no hexadecimal digits.

  The decoder calls two logging functions, \<open>trace\<close> and \<open>dtrace\<close>, at eleven places.
  The file defines neither of them; they are globals that the host is expected to
  provide.  They are parameters here: a logging function either returns when it is
  called (\<open>None\<close>), or calling it raises an error (\<open>Some e\<close>).  Run without a host that
  defines them, a call raises \<open>ReferenceError\<close>: that is the parameter \<open>not_defined\<close>.
  A logging function does the same at every call, and the arguments of the calls are
  string concatenations, which have no effect.
\<close>

datatype pkg_error =
    HxOutOfData
  | HxUnexpectedCode "nat option" nat
  | BstrOutOfData
  | BstrUnterminatedString "nat option"
  | BadMagic int
  | BadSecond int
  | ExpectedTwoZeros
  | InvalidSize int
  | InvalidStringsLength int
  | ExpectedDoubleZero
  | UnsupportedOleType int
  | WastedData int
  | InvalidTerminator int
  | ReferenceError

type_synonym 'a rd = "nat \<Rightarrow> pkg_error + ('a \<times> nat)"

definition rd_return :: "'a \<Rightarrow> 'a rd" where
  "rd_return x i = Inr (x, i)"

definition rd_throw :: "pkg_error \<Rightarrow> 'a rd" where
  "rd_throw e i = Inl e"

definition rd_bind :: "'a rd \<Rightarrow> ('a \<Rightarrow> 'b rd) \<Rightarrow> 'b rd" where
  "rd_bind m f i = (case m i of Inl e \<Rightarrow> Inl e | Inr (x, i') \<Rightarrow> f x i')"

type_synonym logger = "pkg_error option"


text \<open>A call of a logging function: the cursor stays where it is.\<close>

definition rd_call :: "logger \<Rightarrow> unit rd" where
  "rd_call f i = (case f of None \<Rightarrow> Inr ((), i) | Some e \<Rightarrow> Inl e)"

text \<open>The \<open>do ... while\<close> loop of \<open>hx_\<close>: read a character, skipping space, CR and LF.\<close>

function hx_skip :: "string \<Rightarrow> nat \<Rightarrow> nat option \<times> nat" where
  "hx_skip txt i =
     (let c = charCodeAt txt i; i' = i + 1 in
      if js_eq 32 c \<or> js_eq 13 c \<or> js_eq 10 c then hx_skip txt i' else (c, i'))"
  by pat_completeness auto
termination
  by (relation "measure (\<lambda>(txt, i). length txt - i)")
     (auto simp: js_eq_def charCodeAt_def split: if_splits)

declare hx_skip.simps [simp del]

definition hx :: "string \<Rightarrow> nat \<Rightarrow> nat rd" where
  "hx txt en i0 =
     (let (c, i) = hx_skip txt i0 in
      if js_between 0x30 0x39 c then Inr (the c - 0x30, i)
      else if js_between 0x41 0x5A c then Inr (the c - 0x37, i)
      else if js_between 0x61 0x7A c then Inr (the c - 0x57, i)
      else if i \<ge> en then Inl HxOutOfData
      else Inl (HxUnexpectedCode c i))"

text \<open>\<open>h << n\<close> on the result of \<open>hx_\<close>.\<close>

definition sh :: "nat \<Rightarrow> nat \<Rightarrow> int32" where
  "sh h n = push_bit n (word_of_nat h)"

definition be4 :: "string \<Rightarrow> nat \<Rightarrow> int rd" where
  "be4 txt en =
     rd_bind (hx txt en) (\<lambda>h1. rd_bind (hx txt en) (\<lambda>h2.
     rd_bind (hx txt en) (\<lambda>h3. rd_bind (hx txt en) (\<lambda>h4.
     rd_bind (hx txt en) (\<lambda>h5. rd_bind (hx txt en) (\<lambda>h6.
     rd_bind (hx txt en) (\<lambda>h7. rd_bind (hx txt en) (\<lambda>h8.
       rd_return (sint (sh h1 28 OR sh h2 24 OR sh h3 20 OR sh h4 16
                        OR sh h5 12 OR sh h6 8 OR sh h7 4 OR word_of_nat h8))))))))))"

definition le4 :: "string \<Rightarrow> nat \<Rightarrow> int rd" where
  "le4 txt en =
     rd_bind (hx txt en) (\<lambda>h1. rd_bind (hx txt en) (\<lambda>h2.
     rd_bind (hx txt en) (\<lambda>h3. rd_bind (hx txt en) (\<lambda>h4.
     rd_bind (hx txt en) (\<lambda>h5. rd_bind (hx txt en) (\<lambda>h6.
     rd_bind (hx txt en) (\<lambda>h7. rd_bind (hx txt en) (\<lambda>h8.
       rd_return (sint (sh h1 4 OR word_of_nat h2 OR sh h3 12 OR sh h4 8
                        OR sh h5 20 OR sh h6 16 OR sh h7 28 OR sh h8 24))))))))))"

definition le2 :: "string \<Rightarrow> nat \<Rightarrow> int rd" where
  "le2 txt en =
     rd_bind (hx txt en) (\<lambda>h1. rd_bind (hx txt en) (\<lambda>h2.
     rd_bind (hx txt en) (\<lambda>h3. rd_bind (hx txt en) (\<lambda>h4.
       rd_return (sint (sh h1 4 OR word_of_nat h2 OR sh h3 12 OR sh h4 8))))))"

text \<open>One decoded character, \<open>(hx_() << 4) | hx_()\<close>, as \<open>bstr_\<close> and \<open>str_\<close> read it.\<close>

definition hx2 :: "string \<Rightarrow> nat \<Rightarrow> nat rd" where
  "hx2 txt en =
     rd_bind (hx txt en) (\<lambda>h1. rd_bind (hx txt en) (\<lambda>h2.
       rd_return (unat (sh h1 4 OR word_of_nat h2))))"

text \<open>Every successful read moves the cursor forward; the loops below end for that reason.\<close>

lemma hx_skip_adv: "hx_skip s i = (c, i') \<Longrightarrow> i < i'"
proof (induction s i rule: hx_skip.induct)
  case (1 s i)
  show ?case
  proof (cases "js_eq 32 (charCodeAt s i) \<or> js_eq 13 (charCodeAt s i)
                \<or> js_eq 10 (charCodeAt s i)")
    case True
    then have "hx_skip s (i + 1) = (c, i')"
      using "1.prems" by (subst (asm) hx_skip.simps) (simp add: Let_def)
    then have "i + 1 < i'" using "1.IH" [OF refl refl True] by simp
    then show ?thesis by simp
  next
    case False
    then show ?thesis
      using "1.prems" by (subst (asm) hx_skip.simps) (auto simp add: Let_def)
  qed
qed

lemma hx_adv: "hx s en i = Inr (h, i') \<Longrightarrow> i < i'"
  by (auto simp add: hx_def split: prod.splits if_splits dest: hx_skip_adv)

lemma hx2_adv: "hx2 s en i = Inr (h, i') \<Longrightarrow> i < i'"
  by (auto simp add: hx2_def rd_bind_def rd_return_def split: sum.splits prod.splits
      dest!: hx_adv)

text \<open>
  The \<open>while\<close> loop of \<open>bstr_\<close>: \<open>a\<close> collects character codes, \<open>hs\<close> the chunks of more
  than 500 codes already turned into strings.
\<close>

function bstr_loop ::
  "string \<Rightarrow> nat \<Rightarrow> int \<Rightarrow> nat list \<Rightarrow> nat \<Rightarrow> nat list list
   \<Rightarrow> (nat list \<times> nat list list) rd" where
  "bstr_loop txt en len a cnt hs i =
     (if i < en then
        (case hx2 txt en i of
           Inl e \<Rightarrow> Inl e
         | Inr (c, i') \<Rightarrow>
             (let a = a @ [c]; cnt = cnt + 1 in
              if int cnt \<ge> len then Inr ((a, hs), i')
              else if length a > 500 then bstr_loop txt en len [] cnt (hs @ [a]) i'
              else bstr_loop txt en len a cnt hs i'))
      else Inr ((a, hs), i))"
  by pat_completeness auto
termination
  by (relation "measure (\<lambda>(txt, en, len, a, cnt, hs, i). en - i)")
     (auto dest: hx2_adv)

declare bstr_loop.simps [simp del]

text \<open>The last chunk is pushed when it is not empty; \<open>hs.join("")\<close> concatenates.\<close>

definition js_join :: "nat list \<Rightarrow> nat list list \<Rightarrow> nat list" where
  "js_join a hs = concat (if length a > 0 then hs @ [a] else hs)"

text \<open>\<open>bstr_\<close> calls \<open>dtrace\<close> once it has read the length, before it tests it.\<close>

definition bstr :: "logger \<Rightarrow> string \<Rightarrow> nat \<Rightarrow> bool \<Rightarrow> nat list rd" where
  "bstr dtrace txt en zt =
     rd_bind (le4 txt en) (\<lambda>len.
     rd_bind (rd_call dtrace) (\<lambda>u i.
       if int i + len > int en then Inl BstrOutOfData
       else
         rd_bind (bstr_loop txt en len [] 0 [])
           (\<lambda>(a, hs).
              let s = js_join a hs in
              if zt then
                (if s = [] then rd_throw (BstrUnterminatedString None)
                 else if last s \<noteq> 0 then rd_throw (BstrUnterminatedString (Some (last s)))
                 else rd_return (butlast s))
              else rd_return s) i))"

function str_loop ::
  "string \<Rightarrow> nat \<Rightarrow> nat list \<Rightarrow> nat list list \<Rightarrow> (nat list \<times> nat list list) rd" where
  "str_loop txt en a hs i =
     (if i < en then
        (case hx2 txt en i of
           Inl e \<Rightarrow> Inl e
         | Inr (c, i') \<Rightarrow>
             if c = 0 then Inr ((a, hs), i')
             else
               (let a = a @ [c] in
                if length a > 500 then str_loop txt en [] (hs @ [a]) i'
                else str_loop txt en a hs i'))
      else Inr ((a, hs), i))"
  by pat_completeness auto
termination
  by (relation "measure (\<lambda>(txt, en, a, hs, i). en - i)")
     (auto dest: hx2_adv)

declare str_loop.simps [simp del]

definition str :: "string \<Rightarrow> nat \<Rightarrow> nat list rd" where
  "str txt en = rd_bind (str_loop txt en [] []) (\<lambda>(a, hs). rd_return (js_join a hs))"

lemma rd_bind_adv:
  assumes "rd_bind m f i = Inr (y, i')"
    and "\<And>x j. m i = Inr (x, j) \<Longrightarrow> i < j"
    and "\<And>x j k. f x j = Inr (y, k) \<Longrightarrow> j \<le> k"
  shows "i < i'"
  using assms by (fastforce simp add: rd_bind_def split: sum.splits prod.splits)

lemma le4_adv: "le4 s en i = Inr (n, i') \<Longrightarrow> i < i'"
  unfolding le4_def
  by (erule rd_bind_adv, erule hx_adv)
     (auto simp add: rd_bind_def rd_return_def split: sum.splits prod.splits dest!: hx_adv)

lemma bstr_loop_mono: "bstr_loop s en len a cnt hs i = Inr (r, i') \<Longrightarrow> i \<le> i'"
proof (induction s en len a cnt hs i rule: bstr_loop.induct)
  case (1 s en len a cnt hs i)
  show ?case
    using "1.prems" "1.IH"
    by (subst (asm) bstr_loop.simps)
       (fastforce simp add: Let_def split: if_splits sum.splits prod.splits dest: hx2_adv)
qed

lemma bstr_adv: "bstr lg s en zt i = Inr (r, i') \<Longrightarrow> i < i'"
  unfolding bstr_def
  by (erule rd_bind_adv, erule le4_adv)
     (auto simp add: rd_bind_def rd_return_def rd_throw_def rd_call_def Let_def
           split: sum.splits prod.splits if_splits option.splits dest!: bstr_loop_mono)

text \<open>
  An item of the package: \<open>path\<close>, \<open>data\<close> (static packages only) and \<open>name\<close>; the
  package with the members the decoder sets.
\<close>

record pkg_item =
  item_path :: "nat list"
  item_data :: "nat list option"
  item_name :: "nat list"

record package =
  progid :: "nat list"
  totalsz :: int
  strings :: "nat list list"
  label :: "nat list"
  oletype :: int
  items :: "pkg_item list"

text \<open>
  The loop over the string table; \<open>bc\<close> is the byte counter.  Each round ends with a
  call of \<open>trace\<close>.
\<close>

fun str_table ::
  "logger \<Rightarrow> string \<Rightarrow> nat \<Rightarrow> nat \<Rightarrow> nat list list \<Rightarrow> int
   \<Rightarrow> (nat list list \<times> int) rd" where
  "str_table trace txt en 0 acc bc = rd_return (acc, bc)"
| "str_table trace txt en (Suc n) acc bc =
     rd_bind (str txt en) (\<lambda>s.
     rd_bind (rd_call trace) (\<lambda>u.
       str_table trace txt en n (acc @ [s]) (bc + int (length s) + 1)))"

text \<open>
  The loop over the items of a static package (OLE type 3).  Each round calls \<open>dtrace\<close>
  first, and again after it has read the path.
\<close>

function static_items ::
  "logger \<Rightarrow> string \<Rightarrow> nat \<Rightarrow> int \<Rightarrow> (nat list \<times> nat list option) list \<Rightarrow> int
   \<Rightarrow> ((nat list \<times> nat list option) list \<times> int) rd" where
  "static_items dtrace txt en tsz its bc i =
     (if i < en then
        (case dtrace of
           Some e \<Rightarrow> Inl e
         | None \<Rightarrow>
        (case bstr dtrace txt en True i of
           Inl e \<Rightarrow> Inl e
         | Inr (p, i1) \<Rightarrow>
        (case dtrace of
           Some e \<Rightarrow> Inl e
         | None \<Rightarrow>
             (case bstr dtrace txt en False i1 of
                Inl e \<Rightarrow> Inl e
              | Inr (d, i2) \<Rightarrow>
                  (let bc = bc + int (length p) + 5 + int (length d) + 4;
                       its = its @ [(p, Some d)] in
                   if bc = tsz - 2 then Inr ((its, bc), i2)
                   else static_items dtrace txt en tsz its bc i2)))))
      else Inr ((its, bc), i))"
  by pat_completeness auto
termination
  by (relation "measure (\<lambda>(dtrace, txt, en, tsz, its, bc, i). en - i)")
     (auto dest!: bstr_adv)

declare static_items.simps [simp del]

text \<open>
  The loop over the items of a linked package (OLE type 1); 126 is the tilde.  Each round
  calls \<open>trace\<close> after it has read the path, and once more when the path holds a tilde.
\<close>

fun linked_items ::
  "logger \<Rightarrow> string \<Rightarrow> nat \<Rightarrow> nat list \<Rightarrow> nat \<Rightarrow> (nat list \<times> nat list option) list
   \<Rightarrow> int \<Rightarrow> ((nat list \<times> nat list option) list \<times> int) rd" where
  "linked_items trace txt en lbl 0 its bc = rd_return (its, bc)"
| "linked_items trace txt en lbl (Suc n) its bc =
     rd_bind (str txt en) (\<lambda>p.
     rd_bind (rd_call trace) (\<lambda>u.
     rd_bind (if 126 \<in> set p then rd_call trace else rd_return ()) (\<lambda>u.
       linked_items trace txt en lbl n
         (its @ [(if 126 \<in> set p then lbl else p, None)]) (bc + int (length p) + 1))))"

text \<open>\<open>lastIndexOf\<close>: the greatest index of the character, or \<open>-1\<close>.\<close>

definition lastIndexOf :: "nat list \<Rightarrow> nat \<Rightarrow> int" where
  "lastIndexOf s ch =
     (case filter (\<lambda>k. s ! k = ch) (rev [0..<length s]) of
        [] \<Rightarrow> - 1
      | k # _ \<Rightarrow> int k)"

text \<open>The body of the last loop, which gives an item its name; 92 is the backslash.\<close>

definition set_name :: "nat list \<times> nat list option \<Rightarrow> pkg_item" where
  "set_name it =
     (let si = lastIndexOf (fst it) 92 in
      \<lparr>item_path = fst it, item_data = snd it,
       item_name = (if si > 0 then drop (nat (si + 1)) (fst it) else fst it)\<rparr>)"

text \<open>
  The decoder; its result is the package and the final cursor.  The calls of \<open>trace\<close>
  and \<open>dtrace\<close> stand where the source has them: after the progid, after the total size
  (before its test), after the number of strings (before its test), after the OLE type
  (before its test) and after the number of linked items.
\<close>

definition RtfPkgOb ::
  "logger \<Rightarrow> logger \<Rightarrow> string \<Rightarrow> nat \<Rightarrow> nat \<Rightarrow> pkg_error + (package \<times> nat)" where
  "RtfPkgOb trace dtrace txt beg en =
    rd_bind (be4 txt en) (\<lambda>n.
    if n \<noteq> 0x01050000 then rd_throw (BadMagic n) else
    rd_bind (le4 txt en) (\<lambda>n.
    if n \<noteq> 2 then rd_throw (BadSecond n) else
    rd_bind (bstr dtrace txt en True) (\<lambda>pid.
    rd_bind (rd_call trace) (\<lambda>u.
    rd_bind (le4 txt en) (\<lambda>z1.
    if z1 \<noteq> 0 then rd_throw ExpectedTwoZeros else
    rd_bind (le4 txt en) (\<lambda>z2.
    if z2 \<noteq> 0 then rd_throw ExpectedTwoZeros else
    rd_bind (le4 txt en) (\<lambda>tsz.
    rd_bind (rd_call trace) (\<lambda>u.
    if tsz < 2 \<or> tsz > 1048576 then rd_throw (InvalidSize tsz) else
    rd_bind (le2 txt en) (\<lambda>ns.
    rd_bind (rd_call dtrace) (\<lambda>u.
    if ns < 2 \<or> ns > 10 then rd_throw (InvalidStringsLength ns) else
    rd_bind (str_table trace txt en (nat ns) [] 2) (\<lambda>(strs, bc).
    rd_bind (le2 txt en) (\<lambda>z.
    if z \<noteq> 0 then rd_throw ExpectedDoubleZero else
    rd_bind (le2 txt en) (\<lambda>ole.
    rd_bind (rd_call trace) (\<lambda>u.
    if ole \<noteq> 1 \<and> ole \<noteq> 3 then rd_throw (UnsupportedOleType ole) else
    rd_bind
      (if ole = 3 then static_items dtrace txt en tsz [] (bc + 2 + 2)
       else
         rd_bind (le2 txt en) (\<lambda>m.
         rd_bind (rd_call dtrace) (\<lambda>u.
         rd_bind (linked_items trace txt en (hd strs) (nat m) [] (bc + 2 + 2 + 2))
           (\<lambda>(its, bc).
         if bc \<noteq> tsz - 2 then rd_throw (WastedData (tsz - 2 - bc))
         else rd_return (its, bc)))))
      (\<lambda>(its, bc).
    rd_bind (le2 txt en) (\<lambda>trm.
    if trm \<noteq> 0 then rd_throw (InvalidTerminator trm) else
    rd_return
      \<lparr>progid = pid, totalsz = tsz, strings = strs, label = hd strs, oletype = ole,
       items = map set_name its\<rparr>)))))))))))))))) beg"

text \<open>The character classes that the claims about \<open>hx_\<close> speak of.\<close>

definition is_ws :: "nat \<Rightarrow> bool" where
  "is_ws c = (c = 32 \<or> c = 13 \<or> c = 10)"

definition is_alnum :: "nat \<Rightarrow> bool" where
  "is_alnum c = ((0x30 \<le> c \<and> c \<le> 0x39) \<or> (0x41 \<le> c \<and> c \<le> 0x5A) \<or> (0x61 \<le> c \<and> c \<le> 0x7A))"

section \<open>The parser\<close>

text \<open>
  A destination handler is a function reference; two references are compared with
  \<open>===\<close>.  The handlers that the parser itself names are constructors, any other
  is a \<open>UserHandler\<close>.  What a handler does when it is called is a parameter of
  the parser loop, except for \<open>HandleIgnore\<close>, the empty function.  A handler works
  on the document and on what it attaches to frames, which together are the field
  \<open>doc\<close>; the parser never reads that field.
\<close>

datatype 'u handler =
    HandleMeta | HandleFontTable | HandleColorTable | HandlePcData | HandleIgnore
  | UserHandler 'u

text \<open>A regular expression: its text (\<open>toString\<close>) and its \<open>test\<close> on a string.\<close>

datatype regexp = RegExp (re_toString: string) (re_test: "string \<Rightarrow> bool")

datatype dest = DestString string | DestRegExp regexp | DestOther

datatype parse_error =
    MissingSource
  | InvalidDestinationParam
  | NoControlAfterOpenBrace
  | UnhandledDestination string string
  | TooManyClosingBraces
  | JsTypeError
  | HandlerError string

text \<open>
  \<open>this.frm\<close> is the empty object after construction, \<open>null\<close> after the last frame
  was popped, and otherwise the frame on top of the stack (the same object).
\<close>

datatype frm_ref = FrmInitial | FrmNull | FrmTop

record 'u frame =
  frm_tok :: int32
  frm_pos :: nat
  frm_ctl :: string
  frm_pth :: string
  frm_dh :: "'u handler list"

text \<open>
  The parser object; \<open>this.txt\<close> is the field \<open>source\<close>.  \<open>dhd\<close> maps a name or a path
  to its handlers, \<open>dhr\<close> holds the regular expressions with their handlers (a flat
  array of alternating entries in the source), \<open>dhc\<close> is the cache, in which a path
  may be bound to \<open>null\<close>.
\<close>

record ('u, 'd) parser =
  source :: string
  pos :: nat
  doc :: 'd
  stk :: "'u frame list"
  frm :: frm_ref
  dhd :: "string \<rightharpoonup> 'u handler list"
  dhr :: "(regexp \<times> 'u handler) list"
  dhc :: "string \<rightharpoonup> 'u handler list option"
  chit :: nat
  cmis :: nat

definition HandleDest ::
  "dest \<Rightarrow> 'u handler \<Rightarrow> ('u, 'd) parser \<Rightarrow> parse_error + ('u, 'd) parser" where
  "HandleDest dst handler st =
     (let st = st\<lparr>dhc := Map.empty, chit := 0, cmis := 0\<rparr> in
      case dst of
        DestRegExp re \<Rightarrow>
          (if \<exists>(r, h) \<in> set (dhr st). h = handler \<and> re_toString r = re_toString re
           then Inr st
           else Inr (st\<lparr>dhr := dhr st @ [(re, handler)]\<rparr>))
      | DestString d \<Rightarrow>
          (case dhd st d of
             None \<Rightarrow> Inr (st\<lparr>dhd := (dhd st)(d \<mapsto> [handler])\<rparr>)
           | Some list \<Rightarrow>
               if handler \<in> set list then Inr st
               else Inr (st\<lparr>dhd := (dhd st)(d \<mapsto> list @ [handler])\<rparr>))
      | DestOther \<Rightarrow> Inl InvalidDestinationParam)"

text \<open>The third source of \<open>Handlers\<close>: the loop over the regular expressions.\<close>

definition regex_source ::
  "string \<Rightarrow> (regexp \<times> 'u handler) list \<Rightarrow> 'u handler list \<Rightarrow> 'u handler list" where
  "regex_source path rs dh0 =
     fold (\<lambda>(re, fnc) dh.
             if fnc \<in> set dh then dh
             else if re_test re path then dh @ [fnc] else dh) rs dh0"

definition Handlers ::
  "('u, 'd) parser \<Rightarrow> string \<Rightarrow> string \<Rightarrow> 'u handler list option \<times> ('u, 'd) parser" where
  "Handlers st name path =
     (case dhc st path of
        Some r \<Rightarrow> (r, st\<lparr>chit := chit st + 1\<rparr>)
      | None \<Rightarrow>
          (let st = st\<lparr>cmis := cmis st + 1\<rparr>;
               dh = [];
               dh = (case dhd st name of None \<Rightarrow> dh | Some a \<Rightarrow> dh @ a);
               dh = (case dhd st path of None \<Rightarrow> dh | Some a \<Rightarrow> dh @ a);
               dh = regex_source path (dhr st) dh
           in if length dh = 0 then (None, st\<lparr>dhc := (dhc st)(path \<mapsto> None)\<rparr>)
              else (Some dh, st\<lparr>dhc := (dhc st)(path \<mapsto> Some dh)\<rparr>)))"

text \<open>The fields that the constructor sets before it enables the basic handlers.\<close>

definition RtfParser_init :: "string \<Rightarrow> 'd \<Rightarrow> ('u, 'd) parser" where
  "RtfParser_init t d0 =
     \<lparr>source = t, pos = 0, doc = d0, stk = [], frm = FrmInitial,
      dhd = Map.empty, dhr = [], dhc = Map.empty, chit = 0, cmis = 0\<rparr>"

definition RtfParser ::
  "string option \<Rightarrow> bool \<Rightarrow> bool \<Rightarrow> 'd \<Rightarrow> parse_error + ('u, 'd) parser" where
  "RtfParser text strict nohandle d0 =
     (case text of
        None \<Rightarrow> Inl MissingSource
      | Some t \<Rightarrow>
          (let st = RtfParser_init t d0
           in if nohandle then Inr st
              else
                (case HandleDest (DestString '';rtf'') HandleMeta st of
                   Inl e \<Rightarrow> Inl e
                 | Inr st \<Rightarrow>
                (case HandleDest (DestString '';rtf;fonttbl'') HandleFontTable st of
                   Inl e \<Rightarrow> Inl e
                 | Inr st \<Rightarrow>
                (case HandleDest (DestString '';rtf;fonttbl;f'') HandleFontTable st of
                   Inl e \<Rightarrow> Inl e
                 | Inr st \<Rightarrow> HandleDest (DestString '';rtf;colortbl'') HandleColorTable st)))))"

type_synonym ('u, 'd) run =
  "'u handler \<Rightarrow> int32 \<Rightarrow> nat \<Rightarrow> ('u, 'd) parser \<Rightarrow> parse_error + ('u, 'd) parser"

definition call_handler :: "('u, 'd) run \<Rightarrow> ('u, 'd) run" where
  "call_handler usr h t i st = (case h of HandleIgnore \<Rightarrow> Inr st | _ \<Rightarrow> usr h t i st)"

fun call_handlers ::
  "('u, 'd) run \<Rightarrow> 'u handler list \<Rightarrow> int32 \<Rightarrow> nat \<Rightarrow> ('u, 'd) parser
   \<Rightarrow> parse_error + ('u, 'd) parser" where
  "call_handlers usr [] t i st = Inr st"
| "call_handlers usr (h # hs) t i st =
     (case call_handler usr h t i st of
        Inl e \<Rightarrow> Inl e
      | Inr st' \<Rightarrow> call_handlers usr hs t i st')"

text \<open>\<open>this.frm._dh\<close>; reading it from the empty object or from \<open>null\<close> is a type error.\<close>

definition frm_handlers :: "('u, 'd) parser \<Rightarrow> 'u handler list option" where
  "frm_handlers st =
     (if frm st = FrmTop \<and> stk st \<noteq> [] then Some (frm_dh (last (stk st))) else None)"

text \<open>
  After an open brace at \<open>bps\<close>: the token that follows it, and the token after that
  one when it is the ignorable marker.  The result is the flag \<open>ign\<close>, the position
  \<open>this.pos\<close> and the token there.
\<close>

definition open_prelude :: "string \<Rightarrow> nat \<Rightarrow> bool \<times> nat \<times> int32" where
  "open_prelude s bps =
     (let p = bps + RtfTkLen (GetRtfTk s bps);
          tok = GetRtfTk s p
      in if RtfTkTyp tok = 4 then
           (let p = p + RtfTkLen tok in (True, p, GetRtfTk s p))
         else (False, p, tok))"

text \<open>The stack path of a new frame.\<close>

definition new_path :: "('u, 'd) parser \<Rightarrow> string \<Rightarrow> string" where
  "new_path st ctl =
     (if length (stk st) = 0 then '';'' @ ctl
      else frm_pth (last (stk st)) @ '';'' @ ctl)"

text \<open>
  The body of the main loop of \<open>Document\<close>.  Its result is the new parser and the
  length \<open>len\<close> that the loop adds to \<open>this.pos\<close>; \<open>None\<close> when the block skipper
  does not return.  The control word of a frame is read with \<open>RtfTkCtl\<close>, which gives
  a string for a token of kind 6.
\<close>

definition Document_body ::
  "('u, 'd) run \<Rightarrow> ('u, 'd) parser \<Rightarrow> (parse_error + (('u, 'd) parser \<times> nat)) option" where
  "Document_body usr st =
     (let tok = GetRtfTk (source st) (pos st); len = RtfTkLen tok; typ = RtfTkTyp tok in
      if typ = 2 then
        (let btk = tok; bps = pos st;
             (ign, p, tok) = open_prelude (source st) bps;
             st = st\<lparr>pos := p\<rparr>;
             len = RtfTkLen tok; typ = RtfTkTyp tok
         in if typ \<noteq> 6 then Some (Inl NoControlAfterOpenBrace)
            else
              (let ctl = (case RtfTkCtl tok (source st) (pos st) of None \<Rightarrow> [] | Some c \<Rightarrow> c);
                   pth = new_path st ctl;
                   (dh, st) = Handlers st ctl pth
               in case dh of
                    None \<Rightarrow>
                      (if \<not> ign then Some (Inl (UnhandledDestination ctl pth))
                       else
                         (case RtfSkipB (source st) (pos st) None of
                            None \<Rightarrow> None
                          | Some q \<Rightarrow> Some (Inr (st\<lparr>pos := q\<rparr>, 0))))
                  | Some hs \<Rightarrow>
                      (let nfr = \<lparr>frm_tok = tok, frm_pos = pos st, frm_ctl = ctl,
                                   frm_pth = pth, frm_dh = hs\<rparr>;
                           st = st\<lparr>frm := FrmTop, stk := stk st @ [nfr]\<rparr>
                       in case call_handlers usr hs btk bps st of
                            Inl e \<Rightarrow> Some (Inl e)
                          | Inr st \<Rightarrow> Some (Inr (st, len)))))
      else if typ = 3 then
        (if length (stk st) = 0 then Some (Inl TooManyClosingBraces)
         else
           (case frm_handlers st of
              None \<Rightarrow> Some (Inl JsTypeError)
            | Some hs \<Rightarrow>
                (case call_handlers usr hs tok (pos st) st of
                   Inl e \<Rightarrow> Some (Inl e)
                 | Inr st \<Rightarrow>
                     (let st = st\<lparr>stk := butlast (stk st)\<rparr>;
                          st = st\<lparr>frm := (if length (stk st) = 0 then FrmNull else FrmTop)\<rparr>
                      in Some (Inr (st, len))))))
      else
        (if frm st \<noteq> FrmNull then
           (case frm_handlers st of
              None \<Rightarrow> Some (Inl JsTypeError)
            | Some hs \<Rightarrow>
                (case call_handlers usr hs tok (pos st) st of
                   Inl e \<Rightarrow> Some (Inl e)
                 | Inr st \<Rightarrow> Some (Inr (st, len))))
         else Some (Inr (st, len))))"

partial_function (option) Document_loop ::
  "('u, 'd) run \<Rightarrow> ('u, 'd) parser \<Rightarrow> (parse_error + ('u, 'd) parser) option" where
  "Document_loop usr st =
     (if pos st < length (source st) then
        (case Document_body usr st of
           None \<Rightarrow> None
         | Some (Inl e) \<Rightarrow> Some (Inl e)
         | Some (Inr (st', len)) \<Rightarrow> Document_loop usr (st'\<lparr>pos := pos st' + len\<rparr>))
      else Some (Inr st))"


definition Document ::
  "('u, 'd) run \<Rightarrow> bool \<Rightarrow> ('u, 'd) parser \<Rightarrow> (parse_error + ('u, 'd) parser) option" where
  "Document usr incomplete st =
     (if incomplete \<or> pos st = length (source st) then Some (Inr st)
      else Document_loop usr st)"

text \<open>
  The handler semantics in which no handler other than \<open>HandleIgnore\<close> is defined: a
  parser on which only \<open>HandleIgnore\<close> is registered never consults it.
\<close>

definition no_user_handlers :: "(unit, unit) run" where
  "no_user_handlers h t i st = Inl (HandlerError ''no such handler'')"

section \<open>Facts about the packed token\<close>

lemma sdrop_mask:
  "n + k \<le> 31 \<Longrightarrow> signed_drop_bit n (t::int32) AND mask k = drop_bit n t AND mask k"
  by (rule bit_eqI) (auto simp add: bit_simps)

lemma RtfTkTyp_alt: "RtfTkTyp t = unat (drop_bit 8 t AND 0x7)"
  using sdrop_mask [of 8 3 t] by (simp add: RtfTkTyp_def mask_eq_exp_minus_1)

lemma sdrop31: "signed_drop_bit 31 (t::int32) = 0 \<longleftrightarrow> \<not> bit t 31"
proof
  assume "signed_drop_bit 31 t = 0"
  then have "\<not> bit (signed_drop_bit 31 t) 0" by simp
  then show "\<not> bit t 31" by (simp add: bit_simps)
next
  assume "\<not> bit t 31"
  then show "signed_drop_bit 31 t = 0"
    by (intro bit_eqI) (auto simp add: bit_simps Suc_le_eq)
qed

lemma sint_low16: "sint ((x::int32) AND 0xFFFF) = int (unat (x AND 0xFFFF))"
proof -
  have "x AND 0xFFFF \<le> 0xFFFF" by (rule word_and_le1)
  then have a: "uint (x AND 0xFFFF) \<le> 65535" by (simp add: word_le_def)
  have b: "0 \<le> uint (x AND 0xFFFF)" by simp
  have "signed_take_bit 31 (uint (x AND 0xFFFF)) = uint (x AND 0xFFFF)"
  proof (rule signed_take_bit_int_eq_self)
    show "- (2 ^ 31) \<le> uint (x AND 0xFFFF)" by (rule order_trans [OF _ b]) simp
    show "uint (x AND 0xFFFF) < 2 ^ 31" using a by simp
  qed
  then show ?thesis by (simp add: sint_uint)
qed

lemma RtfTkVal_alt:
  "RtfTkVal t = (if \<not> bit t 31 then None
                 else Some (int (unat (drop_bit 15 t AND 0xFFFF)) - 32768))"
  using sdrop_mask [of 15 16 t]
  by (simp add: RtfTkVal_def sdrop31 sint_low16 mask_eq_exp_minus_1)

lemma low8: "n < 256 \<Longrightarrow> (word_of_nat n :: int32) AND 0xFF = word_of_nat n"
proof -
  assume "n < 256"
  have "(0xFF :: int32) = mask 8" by (simp add: mask_eq_exp_minus_1)
  then have "(word_of_nat n :: int32) AND 0xFF = take_bit 8 (word_of_nat n)"
    by (simp add: take_bit_eq_mask)
  also have "\<dots> = word_of_nat (take_bit 8 n)"
    by (simp add: of_nat_take_bit)
  also have "take_bit 8 n = n" using \<open>n < 256\<close> by (simp add: take_bit_nat_eq_self_iff)
  finally show ?thesis .
qed

lemma drop_small: "n < 2 ^ k \<Longrightarrow> drop_bit k (word_of_nat n :: int32) = 0"
proof -
  assume a: "n < 2 ^ k"
  have "unat (word_of_nat n :: int32) \<le> n" by (simp add: unat_of_nat)
  with a have b: "unat (word_of_nat n :: int32) div 2 ^ k = 0" by simp
  have "unat (drop_bit k (word_of_nat n :: int32)) = drop_bit k (unat (word_of_nat n :: int32))"
    by (rule unat_drop_bit_eq)
  also have "\<dots> = unat (word_of_nat n :: int32) div 2 ^ k" by (rule drop_bit_eq_div)
  finally have "unat (drop_bit k (word_of_nat n :: int32)) = 0" using b by simp
  then show ?thesis by (simp only: unat_eq_0)
qed

text \<open>The fields of the token the newline branch builds, for a length that fits 8 bits.\<close>

lemma newline_token_len:
  "L < 256 \<Longrightarrow> RtfTkLen (push_bit 31 1 OR 1074169088 OR word_of_nat L) = L"
  by (simp add: RtfTkLen_def bit.conj_disj_distrib2 low8 unat_of_nat)

lemma newline_token_typ:
  "L < 256 \<Longrightarrow> RtfTkTyp (push_bit 31 1 OR 1074169088 OR word_of_nat L) = 5"
  using drop_small [of L 8] by (simp add: RtfTkTyp_alt)

lemma newline_token_val:
  "L < 256 \<Longrightarrow> RtfTkVal (push_bit 31 1 OR 1074169088 OR word_of_nat L) = Some 13"
  using drop_small [of L 15] by (simp add: RtfTkVal_alt bit_or_iff)

section \<open>The newline branch of the tokenizer\<close>

lemma scan_crlf_run:
  "len < 255 \<Longrightarrow>
   scan_crlf s i len = min 255 (len + length (takeWhile is_crlf (drop i s)))"
proof (induction s i len rule: scan_crlf.induct)
  case (1 s i len)
  show ?case
  proof (cases "i < length s")
    case False
    then show ?thesis using "1.prems" by (subst scan_crlf.simps) simp
  next
    case True
    then have d: "drop i s = s ! i # drop (Suc i) s"
      by (simp add: Cons_nth_drop_Suc)
    have j: "(\<not> js_eq 10 (charCodeAt s i) \<and> \<not> js_eq 13 (charCodeAt s i))
               = (\<not> is_crlf (s ! i))"
      using True by (auto simp add: charCodeAt_def js_eq_def is_crlf_def)
    show ?thesis
    proof (cases "is_crlf (s ! i)")
      case False
      then show ?thesis using True "1.prems" d
        by (subst scan_crlf.simps) (simp add: j)
    next
      case crlf: True
      show ?thesis
      proof (cases "len + 1 = 255")
        case True
        then show ?thesis using \<open>i < length s\<close> crlf d
          by (subst scan_crlf.simps) (simp add: j)
      next
        case False
        then have "len + 1 < 255" using "1.prems" by simp
        moreover have "\<not> (\<not> js_eq 10 (charCodeAt s i) \<and> \<not> js_eq 13 (charCodeAt s i))"
          using crlf by (simp add: j)
        ultimately have "scan_crlf s (i + 1) (len + 1)
            = min 255 (len + 1 + length (takeWhile is_crlf (drop (i + 1) s)))"
          using "1.IH" [OF True refl _ False] by blast
        then show ?thesis using \<open>i < length s\<close> crlf d False
          by (subst scan_crlf.simps) (simp add: j)
      qed
    qed
  qed
qed

lemma GetRtfTk_newline_eq:
  assumes "i < length s" and "is_crlf (s ! i)"
  shows "GetRtfTk s i = push_bit 31 1 OR 1074169088 OR word_of_nat (scan_crlf s (i + 1) 1)"
  using assms by (auto simp add: GetRtfTk_def charCodeAt_def js_eq_def is_crlf_def)

lemmas tokenizer_eval =
  GetRtfTk_def charCodeAt_def js_eq_def js_between_def js_lt_def js_gt_def ToInt32_def
  hex_digit_def scan_letters.simps scan_value.simps scan_crlf.simps scan_data.simps
  RtfTkTyp_def RtfTkLen_def RtfTkVal_def
  INVALID_def DATA_def PUSH_def POP_def IGNORABLE_def SYMBOL_def CONTROL_def CHARACTER_def

section \<open>Facts about the kinds of tokens\<close>

lemma typ3_bits: "RtfTkTyp t = 3 \<Longrightarrow> bit t 8 \<and> bit t 9 \<and> \<not> bit t 10"
proof -
  assume "RtfTkTyp t = 3"
  then have "unat (drop_bit 8 t AND 7) = unat (3 :: int32)" by (simp add: RtfTkTyp_alt)
  then have e: "drop_bit 8 t AND 7 = 3" by (simp only: word_unat_eq_iff)
  have "bit (drop_bit 8 t AND 7) 0" "bit (drop_bit 8 t AND 7) 1" "\<not> bit (drop_bit 8 t AND 7) 2"
    unfolding e by simp_all
  then show ?thesis by (simp add: bit_simps)
qed

lemma scan_data_le: "len < 255 \<Longrightarrow> scan_data s i len \<le> 255"
proof (induction s i len rule: scan_data.induct)
  case (1 s i len)
  show ?case
    using "1.prems" "1.IH"
    by (subst scan_data.simps) (auto simp add: Let_def)
qed

lemma small_bit9: "n < 256 \<Longrightarrow> \<not> bit (word_of_nat n :: int32) 9"
proof -
  assume "n < 256"
  then have "(word_of_nat n :: int32) AND 0xFF = word_of_nat n" by (rule low8)
  then have "bit (word_of_nat n :: int32) 9 = bit ((word_of_nat n :: int32) AND 0xFF) 9" by simp
  then show ?thesis by (simp add: bit_and_iff)
qed

text \<open>Only the byte \<open>}\<close> gives a token whose kind bits are 3.\<close>

lemma GetRtfTk_not_POP:
  assumes "\<not> js_eq 125 (charCodeAt s p)"
  shows "\<not> bit (GetRtfTk s p) 8 \<or> \<not> bit (GetRtfTk s p) 9 \<or> bit (GetRtfTk s p) 10"
proof -
  have d: "\<not> bit (word_of_nat (scan_data s (p + 1) 1) :: int32) 9"
    by (rule small_bit9) (use scan_data_le [of 1 s "p + 1"] in simp)
  have a: "js_eq 39 (charCodeAt s i) \<Longrightarrow> i + 2 > length s \<Longrightarrow> (length s - i) + 2 = 3" for i
    by (auto simp add: js_eq_def charCodeAt_def split: if_splits)
  show ?thesis
    using assms d a
    by (simp add: GetRtfTk_def Let_def bit_or_iff bit_push_bit_iff
             split: prod.splits option.splits)
qed

lemma GetRtfTk_POP:
  assumes "RtfTkTyp (GetRtfTk s p) = 3"
  shows "charCodeAt s p = Some 125 \<and> RtfTkLen (GetRtfTk s p) = 1"
proof -
  have "js_eq 125 (charCodeAt s p)"
    using typ3_bits [OF assms] GetRtfTk_not_POP [of s p] by blast
  then show ?thesis
    by (simp add: GetRtfTk_def js_eq_def RtfTkLen_def)
qed

section \<open>The block skipper follows the token walk\<close>

lemma RtfSkipB_loop_close:
  assumes "closes_at s (p, d)"
  shows "RtfSkipB_loop s p d = Some (p + 1)"
  using assms GetRtfTk_POP [of s p]
  by (subst RtfSkipB_loop.simps) (simp add: closes_at_def POP_def Let_def)

lemma RtfSkipB_loop_step:
  assumes "p < length s" and "\<not> closes_at s (p, d)"
  shows "RtfSkipB_loop s p d
         = RtfSkipB_loop s (fst (walk_step s (p, d))) (snd (walk_step s (p, d)))"
  using assms
  by (subst RtfSkipB_loop.simps)
     (simp add: closes_at_def walk_step_def POP_def PUSH_def Let_def)

lemma RtfSkipB_loop_walk:
  assumes "\<forall>j<k. fst (skip_walk s pd j) < length s \<and> \<not> closes_at s (skip_walk s pd j)"
      and "closes_at s (skip_walk s pd k)"
  shows "RtfSkipB_loop s (fst pd) (snd pd) = Some (fst (skip_walk s pd k) + 1)"
  using assms
proof (induction k arbitrary: pd)
  case 0
  then show ?case using RtfSkipB_loop_close [of s "fst pd" "snd pd"] by simp
next
  case (Suc k)
  have h0: "fst pd < length s \<and> \<not> closes_at s pd"
    using Suc.prems(1) [rule_format, of 0] by simp
  have hs: "\<forall>j<k. fst (skip_walk s (walk_step s pd) j) < length s
                  \<and> \<not> closes_at s (skip_walk s (walk_step s pd) j)"
  proof (intro allI impI)
    fix j assume "j < k"
    then show "fst (skip_walk s (walk_step s pd) j) < length s
               \<and> \<not> closes_at s (skip_walk s (walk_step s pd) j)"
      using Suc.prems(1) [rule_format, of "Suc j"] by simp
  qed
  have "RtfSkipB_loop s (fst (walk_step s pd)) (snd (walk_step s pd))
        = Some (fst (skip_walk s (walk_step s pd) k) + 1)"
    using Suc.IH [OF hs] Suc.prems(2) by simp
  moreover have "RtfSkipB_loop s (fst pd) (snd pd)
        = RtfSkipB_loop s (fst (walk_step s pd)) (snd (walk_step s pd))"
    using RtfSkipB_loop_step [of "fst pd" s "snd pd"] h0 by simp
  ultimately show ?case by simp
qed

lemma skip_walk_add: "skip_walk s pd (j + m) = skip_walk s (skip_walk s pd j) m"
  by (induction j arbitrary: pd) simp_all

lemma skip_walk_fst_mono: "fst pd \<le> fst (skip_walk s pd m)"
proof (induction m arbitrary: pd)
  case 0
  show ?case by simp
next
  case (Suc m)
  have "fst pd \<le> fst (walk_step s pd)" by (simp add: walk_step_def Let_def)
  also have "\<dots> \<le> fst (skip_walk s (walk_step s pd) m)" by (rule Suc.IH)
  finally show ?case by simp
qed

lemma skip_walk_before_close:
  assumes "closes_at s (skip_walk s pd k)" and "j < k"
  shows "fst (skip_walk s pd j) < length s"
proof -
  have "skip_walk s pd k = skip_walk s (skip_walk s pd j) (k - j)"
    using assms(2) skip_walk_add [of s pd j "k - j"] by simp
  then have "fst (skip_walk s pd j) \<le> fst (skip_walk s pd k)"
    using skip_walk_fst_mono [of "skip_walk s pd j" s "k - j"] by simp
  then show ?thesis using assms(1) by (simp add: closes_at_def)
qed

lemma closes_at_brace:
  assumes "closes_at s pd"
  shows "s ! fst pd = CHR ''}''"
proof -
  have "charCodeAt s (fst pd) = Some 125"
    using assms GetRtfTk_POP [of s "fst pd"] by (simp add: closes_at_def POP_def)
  then have "(of_char (s ! fst pd) :: nat) = of_char (CHR ''}'')"
    by (simp add: charCodeAt_def split: if_splits)
  then show ?thesis by (simp only: of_char_eq_iff)
qed

section \<open>Facts about the hexadecimal reader\<close>

lemma hx_skip_run:
  assumes "i \<le> j"
      and "\<forall>k. i \<le> k \<and> k < j \<longrightarrow> is_ws (of_char (s ! k))"
      and "j < length s"
      and "\<not> is_ws (of_char (s ! j))"
  shows "hx_skip s i = (Some (of_char (s ! j)), j + 1)"
  using assms
proof (induction "j - i" arbitrary: i)
  case 0
  then have "i = j" by simp
  then show ?case
    using "0.prems"(3,4)
    by (subst hx_skip.simps) (simp add: Let_def charCodeAt_def js_eq_def is_ws_def)
next
  case (Suc n)
  then have lt: "i < j" by simp
  then have w: "is_ws (of_char (s ! i))" and il: "i < length s"
    using Suc.prems by auto
  have "hx_skip s i = hx_skip s (i + 1)"
    using w il by (subst hx_skip.simps) (simp add: Let_def charCodeAt_def js_eq_def is_ws_def)
  moreover have "hx_skip s (i + 1) = (Some (of_char (s ! j)), j + 1)"
  proof (rule Suc.hyps(1))
    show "n = j - (i + 1)" using Suc.hyps(2) by simp
    show "i + 1 \<le> j" using lt by simp
    show "\<forall>k. i + 1 \<le> k \<and> k < j \<longrightarrow> is_ws (of_char (s ! k))" using Suc.prems(2) by simp
    show "j < length s" by (rule Suc.prems(3))
    show "\<not> is_ws (of_char (s ! j))" by (rule Suc.prems(4))
  qed
  ultimately show ?case by simp
qed

lemma hx_skip_not_ws: "hx_skip s i = (Some b, p) \<Longrightarrow> \<not> is_ws b"
proof (induction s i rule: hx_skip.induct)
  case (1 s i)
  show ?case
  proof (cases "js_eq 32 (charCodeAt s i) \<or> js_eq 13 (charCodeAt s i)
                \<or> js_eq 10 (charCodeAt s i)")
    case True
    then have "hx_skip s (i + 1) = (Some b, p)"
      using "1.prems" by (subst (asm) hx_skip.simps) (simp add: Let_def)
    then show ?thesis using "1.IH" [OF refl refl True] by simp
  next
    case False
    then show ?thesis
      using "1.prems"
      by (subst (asm) hx_skip.simps) (auto simp add: Let_def js_eq_def is_ws_def)
  qed
qed

section \<open>The tokens built after a backslash\<close>

lemma push15_typ: "drop_bit 8 (push_bit 15 (x::int32)) AND 0x7 = 0"
proof -
  have "drop_bit 8 (push_bit 15 x) AND mask 3 = 0"
    by (rule bit_eqI) (auto simp add: bit_simps)
  then show ?thesis by (simp add: mask_eq_exp_minus_1)
qed

lemma push15_len: "push_bit 15 (x::int32) AND 0xFF = 0"
proof -
  have "push_bit 15 x AND mask 8 = 0"
    by (rule bit_eqI) (auto simp add: bit_simps)
  then show ?thesis by (simp add: mask_eq_exp_minus_1)
qed

lemma push15_val: "drop_bit 15 (push_bit 15 (x::int32)) AND 0xFFFF = x AND 0xFFFF"
proof -
  have "drop_bit 15 (push_bit 15 x) AND mask 16 = x AND mask 16"
    by (rule bit_eqI) (auto simp add: bit_simps)
  then show ?thesis by (simp add: mask_eq_exp_minus_1)
qed

lemma low16: "n < 65536 \<Longrightarrow> unat ((word_of_nat n :: int32) AND 0xFFFF) = n"
proof -
  assume a: "n < 65536"
  have "(0xFFFF :: int32) = mask 16" by (simp add: mask_eq_exp_minus_1)
  then have "(word_of_nat n :: int32) AND 0xFFFF = take_bit 16 (word_of_nat n)"
    by (simp add: take_bit_eq_mask)
  also have "\<dots> = word_of_nat (take_bit 16 n)"
    by (simp add: of_nat_take_bit)
  also have "take_bit 16 n = n" using a by (simp add: take_bit_nat_eq_self_iff)
  finally show ?thesis using a by (simp add: unat_of_nat)
qed

lemma symbol_token:
  assumes "c < 256"
  shows "RtfTkTyp (push_bit 31 1 OR push_bit 15 (word_of_nat (c + 32768)) OR 1282) = 5"
    and "RtfTkLen (push_bit 31 1 OR push_bit 15 (word_of_nat (c + 32768)) OR 1282) = 2"
    and "RtfTkVal (push_bit 31 1 OR push_bit 15 (word_of_nat (c + 32768)) OR 1282) = Some (int c)"
proof -
  show "RtfTkTyp (push_bit 31 1 OR push_bit 15 (word_of_nat (c + 32768)) OR 1282) = 5"
    by (simp add: RtfTkTyp_alt bit.conj_disj_distrib2 push15_typ)
  show "RtfTkLen (push_bit 31 1 OR push_bit 15 (word_of_nat (c + 32768)) OR 1282) = 2"
    by (simp add: RtfTkLen_def bit.conj_disj_distrib2 push15_len)
  have "unat ((word_of_nat (c + 32768) :: int32) AND 0xFFFF) = c + 32768"
    using assms by (intro low16) simp
  then show "RtfTkVal (push_bit 31 1 OR push_bit 15 (word_of_nat (c + 32768)) OR 1282) = Some (int c)"
    by (simp add: RtfTkVal_alt bit.conj_disj_distrib2 push15_val bit_or_iff)
qed

lemma nat_small_bits: "(n::nat) < 2 ^ k \<Longrightarrow> bit n m \<Longrightarrow> m < k"
proof (rule ccontr)
  assume a: "n < 2 ^ k" and b: "bit n m" and c: "\<not> m < k"
  have "(2::nat) ^ k \<le> 2 ^ m" using c by (intro power_increasing) simp_all
  then have "n < 2 ^ m" using a by linarith
  then have "n div 2 ^ m = 0" by simp
  then show False using b by (simp add: bit_iff_odd)
qed

lemma hex_token:
  assumes "d1 < 16" and "d2 < 16"
  shows "RtfTkTyp (push_bit 31 1 OR push_bit 19 (word_of_nat d1)
                    OR push_bit 15 (word_of_nat d2) OR 1796) = 7"
    and "RtfTkLen (push_bit 31 1 OR push_bit 19 (word_of_nat d1)
                    OR push_bit 15 (word_of_nat d2) OR 1796) = 4"
    and "RtfTkVal (push_bit 31 1 OR push_bit 19 (word_of_nat d1)
                    OR push_bit 15 (word_of_nat d2) OR 1796)
         = Some (int (unat (push_bit 4 (word_of_nat d1) OR word_of_nat d2 :: int32)) - 32768)"
proof -
  let ?X = "word_of_nat d1 :: int32" and ?Y = "word_of_nat d2 :: int32"
  have x: "bit d1 m \<Longrightarrow> m < 4" for m using nat_small_bits [of d1 4 m] assms(1) by simp
  have y: "bit d2 m \<Longrightarrow> m < 4" for m using nat_small_bits [of d2 4 m] assms(2) by simp
  have t1: "drop_bit 8 (push_bit 19 ?X) AND 0x7 = 0"
  proof -
    have "drop_bit 8 (push_bit 19 ?X) AND mask 3 = 0"
      by (rule bit_eqI) (auto simp add: bit_simps)
    then show ?thesis by (simp add: mask_eq_exp_minus_1)
  qed
  have l1: "push_bit 19 ?X AND 0xFF = 0"
  proof -
    have "push_bit 19 ?X AND mask 8 = 0"
      by (rule bit_eqI) (auto simp add: bit_simps)
    then show ?thesis by (simp add: mask_eq_exp_minus_1)
  qed
  have v1: "(drop_bit 15 (push_bit 19 ?X) AND 0xFFFF) OR (?Y AND 0xFFFF) = push_bit 4 ?X OR ?Y"
  proof -
    have "(drop_bit 15 (push_bit 19 ?X) AND mask 16) OR (?Y AND mask 16) = push_bit 4 ?X OR ?Y"
      by (rule bit_eqI) (auto simp add: bit_simps dest: x y)
    then show ?thesis by (simp add: mask_eq_exp_minus_1)
  qed
  show "RtfTkTyp (push_bit 31 1 OR push_bit 19 ?X OR push_bit 15 ?Y OR 1796) = 7"
    by (simp add: RtfTkTyp_alt bit.conj_disj_distrib2 push15_typ t1)
  show "RtfTkLen (push_bit 31 1 OR push_bit 19 ?X OR push_bit 15 ?Y OR 1796) = 4"
    by (simp add: RtfTkLen_def bit.conj_disj_distrib2 push15_len l1)
  show "RtfTkVal (push_bit 31 1 OR push_bit 19 ?X OR push_bit 15 ?Y OR 1796)
         = Some (int (unat (push_bit 4 ?X OR ?Y)) - 32768)"
    using v1
    by (simp add: RtfTkVal_alt bit.conj_disj_distrib2 push15_val bit_or_iff)
qed

lemma hex_digit_lt16: "hex_digit d = Some v \<Longrightarrow> v < 16"
  by (auto simp add: hex_digit_def js_between_def split: if_splits option.splits)

text \<open>
  What the tokenizer returns for a backslash followed by a byte that is no lower-case
  letter, no \<open>*\<close> and no apostrophe: always a \<open>Symbol\<close> of length 2 that holds the byte.
\<close>

lemma GetRtfTk_backslash_any:
  assumes "i + 1 < length s" and "s ! i = CHR 0x5C" and "c = of_char (s ! (i + 1))"
      and "\<not> (97 \<le> c \<and> c \<le> 122)" and "c \<noteq> 42" and "c \<noteq> 39"
  shows "RtfTkTyp (GetRtfTk s i) = SYMBOL \<and> RtfTkLen (GetRtfTk s i) = 2
         \<and> RtfTkVal (GetRtfTk s i) = Some (int c)"
proof -
  have c: "charCodeAt s (i + 1) = Some c" using assms(1,3) by (simp add: charCodeAt_def)
  have sl: "scan_letters s (i + 1) 1 = (i + 1, 1)"
    using c assms(4) by (subst scan_letters.simps) (auto simp add: js_between_def)
  have lt: "c < 256" using assms(3) by simp
  have "GetRtfTk s i = push_bit 31 1 OR push_bit 15 (word_of_nat (c + 32768)) OR 1282"
    using assms(1,2,5,6) c sl
    by (auto simp add: GetRtfTk_def charCodeAt_def js_eq_def js_lt_def js_gt_def ToInt32_def)
  then show ?thesis using symbol_token [OF lt] by (simp add: SYMBOL_def)
qed

text \<open>
  What the tokenizer returns for a backslash, an apostrophe and two more bytes: \<open>Invalid\<close>
  of length 4 when one of the two is no hexadecimal digit, and otherwise a \<open>Character\<close> of
  length 4 whose stored value lacks the offset 32768, so that \<open>RtfTkVal\<close> gives
  \<open>((hi << 4) | lo) - 32768\<close>.
\<close>

lemma GetRtfTk_hex_invalid:
  assumes "i + 3 < length s" and "s ! i = CHR 0x5C" and "s ! (i + 1) = CHR 0x27"
      and "hex_digit (Some (of_char (s ! (i + 2)))) = None
           \<or> hex_digit (Some (of_char (s ! (i + 3)))) = None"
  shows "RtfTkTyp (GetRtfTk s i) = INVALID \<and> RtfTkLen (GetRtfTk s i) = 4"
proof -
  have sl: "scan_letters s (i + 1) 1 = (i + 1, 1)"
    using assms(1,3) by (subst scan_letters.simps) (simp add: js_between_def charCodeAt_def)
  have "GetRtfTk s i = 4"
    using assms sl
    by (auto simp add: GetRtfTk_def charCodeAt_def js_eq_def numeral_3_eq_3 numeral_2_eq_2
             split: option.splits)
  then show ?thesis by (simp add: RtfTkTyp_def RtfTkLen_def INVALID_def)
qed

lemma GetRtfTk_hex_valid:
  assumes "i + 3 < length s" and "s ! i = CHR 0x5C" and "s ! (i + 1) = CHR 0x27"
      and "hex_digit (Some (of_char (s ! (i + 2)))) = Some hi"
      and "hex_digit (Some (of_char (s ! (i + 3)))) = Some lo"
  shows "RtfTkTyp (GetRtfTk s i) = CHARACTER \<and> RtfTkLen (GetRtfTk s i) = 4
         \<and> RtfTkVal (GetRtfTk s i)
             = Some (int (unat (push_bit 4 (word_of_nat hi) OR word_of_nat lo :: int32)) - 32768)"
proof -
  have sl: "scan_letters s (i + 1) 1 = (i + 1, 1)"
    using assms(1,3) by (subst scan_letters.simps) (simp add: js_between_def charCodeAt_def)
  have "GetRtfTk s i = push_bit 31 1 OR push_bit 19 (word_of_nat hi)
                         OR push_bit 15 (word_of_nat lo) OR 1796"
    using assms sl
    by (auto simp add: GetRtfTk_def charCodeAt_def js_eq_def numeral_3_eq_3 numeral_2_eq_2
             split: option.splits)
  then show ?thesis
    using hex_token [OF hex_digit_lt16 [OF assms(4)] hex_digit_lt16 [OF assms(5)]]
    by (simp add: CHARACTER_def)
qed

section \<open>Claims about the tokenizer\<close>

text \<open>
  C1 (the code differs).  After a backslash, a byte that is no lower-case letter, no \<open>*\<close>
  and no apostrophe is stated to give a \<open>Symbol\<close> of length 2 only for the backslash and
  the bytes \<open>- : _ { | } ~\<close>, and \<open>Invalid\<close> of length 2 for every other byte.  The
  test guarding the \<open>Invalid\<close> return ends in \<open>c < 123 && c > 126\<close>, which no byte
  satisfies: for the source made of a backslash and \<open>!\<close> the tokenizer returns a
  \<open>Symbol\<close> of length 2 with value 33, not \<open>Invalid\<close>.
\<close>

theorem GetRtfTk_backslash_bang:
  "RtfTkTyp (GetRtfTk [CHR 0x5C, CHR ''!''] 0) = SYMBOL
   \<and> RtfTkTyp (GetRtfTk [CHR 0x5C, CHR ''!''] 0) \<noteq> INVALID
   \<and> RtfTkLen (GetRtfTk [CHR 0x5C, CHR ''!''] 0) = 2
   \<and> RtfTkVal (GetRtfTk [CHR 0x5C, CHR ''!''] 0) = Some 33"
  by (simp add: tokenizer_eval)

text \<open>
  C2 as stated fails: for a source that is one CR followed by one LF the token at offset 0
  is not of kind \<open>ControlWord\<close>.
\<close>

theorem GetRtfTk_newline_not_control:
  "RtfTkTyp (GetRtfTk [CHR 0x0D, CHR 0x0A] 0) \<noteq> CONTROL"
  by (simp add: tokenizer_eval)

text \<open>
  C2, amended.  When the byte at the offset is CR or LF, the tokenizer returns a token of
  kind \<open>Symbol\<close> with value 13 and a value present, whose length is the length of the
  whole run of CR and LF bytes that starts at the offset, capped at 255.
\<close>

theorem GetRtfTk_newline:
  assumes "i < length s" and "is_crlf (s ! i)"
  shows "RtfTkTyp (GetRtfTk s i) = SYMBOL
         \<and> RtfTkVal (GetRtfTk s i) = Some 13
         \<and> RtfTkLen (GetRtfTk s i) = min 255 (length (takeWhile is_crlf (drop i s)))"
proof -
  let ?L = "scan_crlf s (i + 1) 1"
  have d: "drop i s = s ! i # drop (Suc i) s"
    using assms(1) by (simp add: Cons_nth_drop_Suc)
  have L: "?L = min 255 (length (takeWhile is_crlf (drop i s)))"
    using assms(2) d by (simp add: scan_crlf_run)
  then have b: "?L < 256" by simp
  have t: "GetRtfTk s i = push_bit 31 1 OR 1074169088 OR word_of_nat ?L"
    by (rule GetRtfTk_newline_eq [OF assms])
  show ?thesis
    unfolding t using b L
    by (simp only: newline_token_typ newline_token_val newline_token_len SYMBOL_def)
qed

text \<open>The amended C2 at the source CR LF \<open>a\<close>, offset 0: a \<open>Symbol\<close> of length 2.\<close>

theorem GetRtfTk_newline_witness:
  "0 < length [CHR 0x0D, CHR 0x0A, CHR ''a''] \<and> is_crlf ([CHR 0x0D, CHR 0x0A, CHR ''a''] ! 0)
   \<and> RtfTkTyp (GetRtfTk [CHR 0x0D, CHR 0x0A, CHR ''a''] 0) = SYMBOL
   \<and> RtfTkVal (GetRtfTk [CHR 0x0D, CHR 0x0A, CHR ''a''] 0) = Some 13
   \<and> RtfTkLen (GetRtfTk [CHR 0x0D, CHR 0x0A, CHR ''a''] 0) = 2"
  using GetRtfTk_newline [of 0 "[CHR 0x0D, CHR 0x0A, CHR ''a'']"]
  by (simp add: is_crlf_def)

text \<open>
  C3 (the code differs).  For a backslash, an apostrophe and two valid hexadecimal digits
  the value read back through \<open>RtfTkVal\<close> is stated to be \<open>(hi<<4)|lo\<close>.  The tokenizer
  stores \<open>(hi<<4)|lo\<close> without the offset 32768 that \<open>RtfTkVal\<close> subtracts (the symbol
  and control-word branches add it): for the digits \<open>41\<close> the token is a \<open>Character\<close> of
  length 4, and \<open>RtfTkVal\<close> gives \<open>65 - 32768\<close>, not 65.
\<close>

theorem GetRtfTk_hex_41:
  "RtfTkTyp (GetRtfTk [CHR 0x5C, CHR 0x27, CHR ''4'', CHR ''1''] 0) = CHARACTER
   \<and> RtfTkLen (GetRtfTk [CHR 0x5C, CHR 0x27, CHR ''4'', CHR ''1''] 0) = 4
   \<and> RtfTkVal (GetRtfTk [CHR 0x5C, CHR 0x27, CHR ''4'', CHR ''1''] 0) = Some (- 32703)
   \<and> RtfTkVal (GetRtfTk [CHR 0x5C, CHR 0x27, CHR ''4'', CHR ''1''] 0) \<noteq> Some 65"
  by (simp add: tokenizer_eval)

section \<open>Claims about the block skipper\<close>

text \<open>
  C8.  Let the token walk from offset \<open>i\<close> at the initial depth meet, as its \<open>k\<close>-th
  token, the first \<open>GroupClose\<close> token at depth 0: the matching close brace.  Then the
  block skipper returns the offset of the first byte past that token, which is a close
  brace.  The initial depth is \<open>bc\<close>, and 0 when \<open>bc\<close> is not given.
\<close>

theorem RtfSkipB_matching_close:
  assumes "\<forall>j<k. \<not> closes_at s (skip_walk s (i, d) j)"
      and "closes_at s (skip_walk s (i, d) k)"
      and "d = (case bc of None \<Rightarrow> 0 | Some b \<Rightarrow> b)"
  shows "RtfSkipB s i bc = Some (fst (skip_walk s (i, d) k) + 1)
         \<and> s ! fst (skip_walk s (i, d) k) = CHR ''}''"
proof -
  have "\<forall>j<k. fst (skip_walk s (i, d) j) < length s
               \<and> \<not> closes_at s (skip_walk s (i, d) j)"
    using assms(1) skip_walk_before_close [OF assms(2)] by blast
  then show ?thesis
    using RtfSkipB_loop_walk [of k s "(i, d)"] assms(2,3) closes_at_brace [OF assms(2)]
    by (simp add: RtfSkipB_def)
qed

text \<open>
  C8 at the source \<open>a{b}c}d\<close> from offset 0: the tokens at the offsets 0 to 4 are passed
  (the close brace at offset 3 is met at depth 1), the close brace at offset 5 is met at
  depth 0, and the skipper returns 6.
\<close>

theorem RtfSkipB_matching_close_witness:
  "skip_walk ''a{b}c}d'' (0, 0) 3 = (3, 1)
   \<and> \<not> closes_at ''a{b}c}d'' (skip_walk ''a{b}c}d'' (0, 0) 3)
   \<and> skip_walk ''a{b}c}d'' (0, 0) 5 = (5, 0)
   \<and> closes_at ''a{b}c}d'' (skip_walk ''a{b}c}d'' (0, 0) 5)
   \<and> RtfSkipB ''a{b}c}d'' 0 None = Some 6
   \<and> ''a{b}c}d'' ! 5 = CHR ''}''"
proof -
  have w: "skip_walk ''a{b}c}d'' (0, 0) 0 = (0, 0)"
          "skip_walk ''a{b}c}d'' (0, 0) 1 = (1, 0)"
          "skip_walk ''a{b}c}d'' (0, 0) 2 = (2, 1)"
          "skip_walk ''a{b}c}d'' (0, 0) 3 = (3, 1)"
          "skip_walk ''a{b}c}d'' (0, 0) 4 = (4, 0)"
          "skip_walk ''a{b}c}d'' (0, 0) 5 = (5, 0)"
    by code_simp+
  have c: "\<not> closes_at ''a{b}c}d'' (0, 0)" "\<not> closes_at ''a{b}c}d'' (1, 0)"
          "\<not> closes_at ''a{b}c}d'' (2, 1)" "\<not> closes_at ''a{b}c}d'' (3, 1)"
          "\<not> closes_at ''a{b}c}d'' (4, 0)" "closes_at ''a{b}c}d'' (5, 0)"
    by code_simp+
  have h1: "\<forall>j<5. \<not> closes_at ''a{b}c}d'' (skip_walk ''a{b}c}d'' (0, 0) j)"
  proof (intro allI impI)
    fix j :: nat assume "j < 5"
    then consider "j = 0" | "j = 1" | "j = 2" | "j = 3" | "j = 4" by linarith
    then show "\<not> closes_at ''a{b}c}d'' (skip_walk ''a{b}c}d'' (0, 0) j)"
      by cases (simp_all only: w c, simp_all)
  qed
  have h2: "closes_at ''a{b}c}d'' (skip_walk ''a{b}c}d'' (0, 0) 5)"
    by (simp only: w c)
  show ?thesis
    using RtfSkipB_matching_close [of 5 "''a{b}c}d''" 0 0 None, OF h1 h2] h2
    by (simp add: w c)
qed

section \<open>Claims about the Package decoder\<close>


text \<open>
  A read that succeeds does not depend on \<open>end\<close> at all.
\<close>

lemma hx_ignores_end: "hx s en i = Inr r \<Longrightarrow> hx s en' i = Inr r"
  by (auto simp add: hx_def split: prod.splits if_splits)

lemma rd_bind_ignores_end:
  assumes "rd_bind m f i = Inr r"
      and "\<And>x. m i = Inr x \<Longrightarrow> m' i = Inr x"
      and "\<And>x j. f x j = Inr r \<Longrightarrow> f' x j = Inr r"
  shows "rd_bind m' f' i = Inr r"
  using assms by (fastforce simp add: rd_bind_def split: sum.splits prod.splits)

lemma be4_ignores_end: "be4 s en i = Inr r \<Longrightarrow> be4 s en' i = Inr r"
  unfolding be4_def
  by (erule rd_bind_ignores_end, erule hx_ignores_end)+ (simp add: rd_return_def)


text \<open>
  What the decoder does for every item, whatever the logging functions do: the name is
  the part of the path after the last backslash when that backslash is not the first
  character, and the path otherwise.
\<close>

lemma RtfPkgOb_names:
  assumes "RtfPkgOb trace dtrace s beg en = Inr (pkg, i)"
  shows "\<forall>it \<in> set (items pkg).
           item_name it =
             (if lastIndexOf (item_path it) 92 > 0
              then drop (nat (lastIndexOf (item_path it) 92 + 1)) (item_path it)
              else item_path it)"
proof -
  obtain its where "items pkg = map set_name its"
    using assms
    by (auto simp add: RtfPkgOb_def rd_bind_def rd_return_def rd_throw_def
             split: sum.splits prod.splits if_splits)
  then show ?thesis by (auto simp add: set_name_def Let_def)
qed

text \<open>
  No decode succeeds while \<open>dtrace\<close> raises an error: \<open>bstr_\<close> calls it on the way to
  the progid.
\<close>

lemma bstr_dtrace_raises: "bstr (Some e) s en zt i \<noteq> Inr r"
  by (auto simp add: bstr_def rd_bind_def rd_call_def split: sum.splits prod.splits)

lemma RtfPkgOb_dtrace_raises: "RtfPkgOb trace (Some e) s beg en \<noteq> Inr r"
  using bstr_dtrace_raises [of e s en True]
  by (auto simp add: RtfPkgOb_def rd_bind_def rd_throw_def split: sum.splits prod.splits)

text \<open>
  C10.  Let the reader start at \<open>i\<close>, and let \<open>j\<close> be an index of the text with only
  space, CR and LF from \<open>i\<close> up to it, holding the byte \<open>c\<close>.  When \<open>c\<close> is an upper-case
  ASCII letter the reader returns \<open>c - 0x37\<close> (16 to 35 for \<open>G\<close> to \<open>Z\<close>), when it is a
  lower-case ASCII letter \<open>c - 0x57\<close>, in both cases with the cursor just past \<open>j\<close>.
  Whenever the reader raises its unexpected-code error for a byte, that byte is neither an
  ASCII letter or digit nor one of space, CR and LF.
\<close>

theorem hx_letters:
  assumes "i \<le> j"
      and "\<forall>k. i \<le> k \<and> k < j \<longrightarrow> is_ws (of_char (s ! k))"
      and "j < length s"
      and "c = of_char (s ! j)"
  shows "(0x41 \<le> c \<and> c \<le> 0x5A \<longrightarrow> hx s en i = Inr (c - 0x37, j + 1))
       \<and> (0x61 \<le> c \<and> c \<le> 0x7A \<longrightarrow> hx s en i = Inr (c - 0x57, j + 1))
       \<and> (\<forall>x p. hx s en i = Inl (HxUnexpectedCode x p)
              \<longrightarrow> (\<forall>b. x = Some b \<longrightarrow> \<not> is_alnum b \<and> \<not> is_ws b))"
proof (intro conjI impI allI)
  assume u: "0x41 \<le> c \<and> c \<le> 0x5A"
  then have "\<not> is_ws (of_char (s ! j))" using assms(4) by (auto simp add: is_ws_def)
  then have "hx_skip s i = (Some c, j + 1)"
    using hx_skip_run [OF assms(1,2,3)] assms(4) by simp
  then show "hx s en i = Inr (c - 0x37, j + 1)"
    using u by (simp add: hx_def js_between_def)
next
  assume l: "0x61 \<le> c \<and> c \<le> 0x7A"
  then have "\<not> is_ws (of_char (s ! j))" using assms(4) by (auto simp add: is_ws_def)
  then have "hx_skip s i = (Some c, j + 1)"
    using hx_skip_run [OF assms(1,2,3)] assms(4) by simp
  then show "hx s en i = Inr (c - 0x57, j + 1)"
    using l by (simp add: hx_def js_between_def)
next
  fix x p b
  assume e: "hx s en i = Inl (HxUnexpectedCode x p)" and b: "x = Some b"
  obtain c' q where sk: "hx_skip s i = (c', q)" by (cases "hx_skip s i")
  have "c' = Some b"
    using e b sk by (auto simp add: hx_def split: if_splits)
  then have "\<not> is_ws b" using hx_skip_not_ws sk by blast
  moreover have "\<not> is_alnum b"
    using e sk \<open>c' = Some b\<close>
    by (auto simp add: hx_def js_between_def is_alnum_def split: if_splits)
  ultimately show "\<not> is_alnum b" and "\<not> is_ws b" by simp_all
qed

text \<open>
  C10 on texts that start with a space: \<open>G\<close> is read as 16, \<open>z\<close> as 35, and \<open>!\<close> raises
  the unexpected-code error, being neither alphanumeric nor skipped.
\<close>

theorem hx_letters_witness:
  "hx '' G'' 9 0 = Inr (16, 2) \<and> hx '' z'' 9 0 = Inr (35, 2)
   \<and> hx '' !'' 9 0 = Inl (HxUnexpectedCode (Some 33) 2) \<and> \<not> is_alnum 33 \<and> \<not> is_ws 33"
proof -
  have ws: "\<forall>k. 0 \<le> k \<and> k < 1 \<longrightarrow> is_ws (of_char ((CHR '' '' # t) ! k))" for t
  proof (intro allI impI)
    fix k :: nat assume "0 \<le> k \<and> k < 1"
    then have "k = 0" by simp
    then show "is_ws (of_char ((CHR '' '' # t) ! k))" by (simp add: is_ws_def)
  qed
  have a: "hx '' !'' 9 0 = Inl (HxUnexpectedCode (Some 33) 2)" by code_simp
  have "hx '' G'' 9 0 = Inr (16, 2)"
    using hx_letters [of 0 1 "'' G''" 71 9, OF _ ws] by simp
  moreover have "hx '' z'' 9 0 = Inr (35, 2)"
    using hx_letters [of 0 1 "'' z''" 122 9, OF _ ws] by simp
  moreover have "\<not> is_alnum 33 \<and> \<not> is_ws 33"
    using hx_letters [of 0 1 "'' !''" 33 9, OF _ ws] a by simp
  ultimately show ?thesis using a by simp
qed

section \<open>Claims about the parser\<close>

lemma Handlers_keeps:
  "Handlers st n p = (r, st') \<Longrightarrow> source st' = source st \<and> pos st' = pos st \<and> stk st' = stk st"
  by (auto simp add: Handlers_def Let_def split: option.splits if_splits)

text \<open>
  On a cache miss no handler is resolved exactly when none is registered for the name,
  none for the path, and no registered regular expression matches the path.
\<close>

lemma regex_source_Nil_iff:
  "regex_source path rs dh0 = [] \<longleftrightarrow> dh0 = [] \<and> (\<forall>(re, h) \<in> set rs. \<not> re_test re path)"
  unfolding regex_source_def
  by (induction rs arbitrary: dh0) (auto split: prod.splits)

lemma Handlers_miss_None_iff:
  assumes "dhc st path = None"
  shows "fst (Handlers st name path) = None \<longleftrightarrow>
           (dhd st name = None \<or> dhd st name = Some [])
           \<and> (dhd st path = None \<or> dhd st path = Some [])
           \<and> (\<forall>(re, h) \<in> set (dhr st). \<not> re_test re path)"
  using assms
  by (auto simp add: Handlers_def Let_def regex_source_Nil_iff split: option.splits)

lemmas parser_eval =
  RtfParser_def RtfParser_init_def HandleDest_def Handlers_def regex_source_def Document_def
  Document_loop.simps Document_body_def open_prelude_def new_path_def frm_handlers_def
  call_handler_def RtfTkCtl_def RtfSkipB_def RtfSkipB_loop.simps

text \<open>
  C4 (the code differs).  The lengths of the tokens of a full scan are stated to sum to
  the length of the source, the cursor never passing its end.  For a backslash and an
  apostrophe at the end of the source the tokenizer returns \<open>(s.length - i) + 2\<close>, which
  is 3 for the 2 bytes that remain.  On the source of 6 bytes made of \<open>{\<close>, backslash,
  \<open>x\<close>, \<open>}\<close>, backslash and apostrophe, with \<open>HandleIgnore\<close> registered for \<open>x\<close>, the
  scan of \<open>Document\<close> ends without error with the cursor at 7.
\<close>

theorem Document_cursor_past_end:
  "RtfTkLen (GetRtfTk [CHR 0x5C, CHR 0x27] 0) = 3
   \<and> length [CHR ''{'', CHR 0x5C, CHR ''x'', CHR ''}'', CHR 0x5C, CHR 0x27] = 6
   \<and> (case HandleDest (DestString ''x'') HandleIgnore
             (RtfParser_init [CHR ''{'', CHR 0x5C, CHR ''x'', CHR ''}'', CHR 0x5C, CHR 0x27] ()) of
         Inl e \<Rightarrow> None
       | Inr st \<Rightarrow> map_option (map_sum id pos) (Document no_user_handlers False st))
     = Some (Inr 7)"
  by (simp add: parser_eval tokenizer_eval Let_def)

text \<open>
  C5.  In the main loop, at an open brace whose group starts (after the ignorable marker,
  when there is one) with a control word for whose destination \<open>Handlers\<close> resolves
  no handler: when the group began with the ignorable marker, the parse goes on from the
  offset that the block skipper returns for the position of the control word; otherwise
  the parse fails with the unhandled-destination error.
\<close>

theorem Document_loop_no_handlers:
  assumes "pos st < length (source st)"
      and "RtfTkTyp (GetRtfTk (source st) (pos st)) = PUSH"
      and "open_prelude (source st) (pos st) = (ign, p, tk)"
      and "RtfTkTyp tk = CONTROL"
      and "RtfTkCtl tk (source st) p = Some ctl"
      and "pth = new_path st ctl"
      and "Handlers (st\<lparr>pos := p\<rparr>) ctl pth = (None, st')"
  shows "Document_loop usr st =
           (if ign then
              (case RtfSkipB (source st) p None of
                 None \<Rightarrow> None
               | Some q \<Rightarrow> Document_loop usr (st'\<lparr>pos := q\<rparr>))
            else Some (Inl (UnhandledDestination ctl pth)))"
proof -
  have k: "source st' = source st" "pos st' = p"
    using Handlers_keeps [OF assms(7)] by simp_all
  have np: "new_path (st\<lparr>pos := p\<rparr>) ctl = pth"
    using assms(6) by (simp add: new_path_def)
  have body: "Document_body usr st =
      (if ign then
         (case RtfSkipB (source st) p None of
            None \<Rightarrow> None
          | Some q \<Rightarrow> Some (Inr (st'\<lparr>pos := q\<rparr>, 0)))
       else Some (Inl (UnhandledDestination ctl pth)))"
    using assms(2,3,4,5,7) k np
    by (simp add: Document_body_def Let_def PUSH_def CONTROL_def)
  show ?thesis
    using assms(1) body
    by (subst Document_loop.simps) (simp split: option.splits)
qed

text \<open>
  C5 on a parser without handlers: the source \<open>{\<close>, backslash, \<open>*\<close>, backslash,
  \<open>x y}\<close> is scanned to its end at 8 without error; the source \<open>{\<close>, backslash, \<open>x y}\<close>
  fails with the unhandled-destination error for \<open>x\<close> at the path \<open>;x\<close>.
\<close>

theorem Document_loop_no_handlers_witness:
  "map_option (map_sum id pos)
     (Document_loop no_user_handlers
        (RtfParser_init [CHR ''{'', CHR 0x5C, CHR ''*'', CHR 0x5C, CHR ''x'', CHR '' '', CHR ''y'', CHR ''}''] ()))
   = Some (Inr 8)
   \<and> Document_loop no_user_handlers
        (RtfParser_init [CHR ''{'', CHR 0x5C, CHR ''x'', CHR '' '', CHR ''y'', CHR ''}''] ())
     = Some (Inl (UnhandledDestination ''x'' '';x''))"
proof -
  let ?s1 = "[CHR ''{'', CHR 0x5C, CHR ''*'', CHR 0x5C, CHR ''x'', CHR '' '', CHR ''y'', CHR ''}'']"
  let ?s2 = "[CHR ''{'', CHR 0x5C, CHR ''x'', CHR '' '', CHR ''y'', CHR ''}'']"
  let ?p1 = "RtfParser_init ?s1 () :: (unit, unit) parser"
  let ?p2 = "RtfParser_init ?s2 () :: (unit, unit) parser"
  define st1 where "st1 = snd (Handlers (?p1\<lparr>pos := 3\<rparr>) ''x'' '';x'')"
  define st2 where "st2 = snd (Handlers (?p2\<lparr>pos := 1\<rparr>) ''x'' '';x'')"
  have a1: "pos ?p1 < length (source ?p1)" by (simp add: RtfParser_init_def)
  have a2: "RtfTkTyp (GetRtfTk (source ?p1) (pos ?p1)) = PUSH"
    by (simp add: RtfParser_init_def tokenizer_eval)
  have a3: "open_prelude (source ?p1) (pos ?p1) = (True, 3, GetRtfTk ?s1 3)"
    by (simp add: RtfParser_init_def open_prelude_def tokenizer_eval Let_def)
  have a4: "RtfTkTyp (GetRtfTk ?s1 3) = CONTROL" by (simp add: tokenizer_eval)
  have a5: "RtfTkCtl (GetRtfTk ?s1 3) (source ?p1) 3 = Some ''x''"
    by (simp add: RtfParser_init_def RtfTkCtl_def tokenizer_eval)
  have a6: "'';x'' = new_path ?p1 ''x''" by (simp add: RtfParser_init_def new_path_def)
  have a7: "Handlers (?p1\<lparr>pos := 3\<rparr>) ''x'' '';x'' = (None, st1)"
    by (simp add: st1_def RtfParser_init_def Handlers_def regex_source_def Let_def)
  have k1: "source st1 = ?s1"
    by (simp add: st1_def RtfParser_init_def Handlers_def regex_source_def Let_def)
  have sk: "RtfSkipB (source ?p1) 3 None = Some 8"
    by (simp add: RtfParser_init_def RtfSkipB_def RtfSkipB_loop.simps tokenizer_eval Let_def)
  have fin: "Document_loop no_user_handlers (st1\<lparr>pos := 8\<rparr>) = Some (Inr (st1\<lparr>pos := 8\<rparr>))"
    by (subst Document_loop.simps) (simp add: k1)
  have r1: "Document_loop no_user_handlers ?p1 = Some (Inr (st1\<lparr>pos := 8\<rparr>))"
    using Document_loop_no_handlers [OF a1 a2 a3 a4 a5 a6 a7, of no_user_handlers] sk fin
    by simp
  have b1: "pos ?p2 < length (source ?p2)" by (simp add: RtfParser_init_def)
  have b2: "RtfTkTyp (GetRtfTk (source ?p2) (pos ?p2)) = PUSH"
    by (simp add: RtfParser_init_def tokenizer_eval)
  have b3: "open_prelude (source ?p2) (pos ?p2) = (False, 1, GetRtfTk ?s2 1)"
    by (simp add: RtfParser_init_def open_prelude_def tokenizer_eval Let_def)
  have b4: "RtfTkTyp (GetRtfTk ?s2 1) = CONTROL" by (simp add: tokenizer_eval)
  have b5: "RtfTkCtl (GetRtfTk ?s2 1) (source ?p2) 1 = Some ''x''"
    by (simp add: RtfParser_init_def RtfTkCtl_def tokenizer_eval)
  have b6: "'';x'' = new_path ?p2 ''x''" by (simp add: RtfParser_init_def new_path_def)
  have b7: "Handlers (?p2\<lparr>pos := 1\<rparr>) ''x'' '';x'' = (None, st2)"
    by (simp add: st2_def RtfParser_init_def Handlers_def regex_source_def Let_def)
  have r2: "Document_loop no_user_handlers ?p2 = Some (Inl (UnhandledDestination ''x'' '';x''))"
    using Document_loop_no_handlers [OF b1 b2 b3 b4 b5 b6 b7, of no_user_handlers]
    by simp
  show ?thesis using r1 r2 by simp
qed

text \<open>
  C6 (the code differs).  The resolved list is stated to hold no handler reference twice.
  \<open>Handlers\<close> concatenates the handlers found by name and those found by path, and
  only its loop over the regular expressions skips a reference that is already in the
  list: a handler registered for the name \<open>rtf\<close> and for the path \<open>;rtf\<close> is resolved
  twice for that destination.
\<close>

theorem Handlers_name_and_path_duplicate:
  "(case HandleDest (DestString ''rtf'') HandleIgnore
           (RtfParser_init [] () :: (unit, unit) parser) of
      Inl e \<Rightarrow> None
    | Inr st \<Rightarrow>
        (case HandleDest (DestString '';rtf'') HandleIgnore st of
           Inl e \<Rightarrow> None
         | Inr st \<Rightarrow> fst (Handlers st ''rtf'' '';rtf'')))
   = Some [HandleIgnore, HandleIgnore]"
  by (simp add: parser_eval Let_def)

text \<open>
  What does hold of the resolution: a call that follows a miss for the same path answers
  from the cache what the miss answered; the loop over the regular expressions adds no
  reference twice; and the list is free of repetitions when the handlers registered for
  the name and those registered for the path are.
\<close>

lemma Handlers_hit_after_miss:
  "fst (Handlers (snd (Handlers st name path)) name' path) = fst (Handlers st name path)"
  by (simp add: Handlers_def Let_def split: option.splits)

lemma regex_source_distinct: "distinct dh0 \<Longrightarrow> distinct (regex_source path rs dh0)"
  unfolding regex_source_def
  by (induction rs arbitrary: dh0) (auto split: prod.splits)

lemma Handlers_miss_distinct:
  assumes "dhc st path = None"
      and "distinct ((case dhd st name of None \<Rightarrow> [] | Some a \<Rightarrow> a)
                     @ (case dhd st path of None \<Rightarrow> [] | Some a \<Rightarrow> a))"
      and "fst (Handlers st name path) = Some dh"
  shows "distinct dh"
proof -
  have "dh = regex_source path (dhr st)
               ((case dhd st name of None \<Rightarrow> [] | Some a \<Rightarrow> a)
                @ (case dhd st path of None \<Rightarrow> [] | Some a \<Rightarrow> a))"
    using assms(1,3)
    by (auto simp add: Handlers_def Let_def split: option.splits if_splits)
  then show ?thesis using regex_source_distinct [OF assms(2)] by simp
qed


end
